theory Spec2Isabelle
  imports Main "HOL-Library.Sublist" "HOL-Library.Multiset"
begin

section \<open>The batch install scheduler of \<open>plugin-add-utils.ts\<close>\<close>

text \<open>
  The development embeds the install scheduler of
  \<open>packages/gatsby-cli/src/handlers/plugin-add-utils.ts\<close>: the module-level queue
  \<open>installs\<close>, the command builder \<open>generateClientCommands\<close>, the flush routine
  \<open>executeInstalls\<close>, its debounced wrapper \<open>debouncedExecute\<close> and the entry point
  \<open>createInstall\<close>.

  \<open>executeInstalls\<close> is an \<open>async\<close> function with two suspension points
  (\<open>await lock\<close> and \<open>await execa\<close>). It is embedded as the three synchronous
  segments between them, driven by the events of a single-threaded event loop.
\<close>

subsection \<open>Data\<close>

text \<open>
  The value of a property read: a string, or \<open>undefined\<close> when the property is absent.
  \<open>to_string\<close> is the conversion that a template literal (line 69) and a property key
  (\<open>_.groupBy\<close> and \<open>types[depType]\<close>, lines 108 and 115) apply to it.
\<close>

datatype val = Undefined | Str string

fun to_string :: "val \<Rightarrow> string" where
  "to_string Undefined = ''undefined''"
| "to_string (Str s) = s"

text \<open>
  The \<open>resource\<close> of a queue entry is the argument \<open>name\<close> of \<open>createInstall\<close>
  (line 181). \<open>IPackageCreateInput\<close> declares it as a string, and a string has none
  of the properties \<open>name\<close>, \<open>version\<close> and \<open>dependencyType\<close> that the flush
  routine reads (lines 69, 108, 114, 118): each read is \<open>undefined\<close>. The queue declares
  the field as \<open>any\<close> (line 104) and the reads are made under \<open>@ts-ignore\<close>, so an
  object that carries some of these properties is the other value a resource can have.
\<close>

record package =
  name :: val
  version :: val
  dependencyType :: val

datatype resource_value = NameString string | Object package

fun get_name :: "resource_value \<Rightarrow> val" where
  "get_name (NameString s) = Undefined"
| "get_name (Object p) = name p"

fun get_version :: "resource_value \<Rightarrow> val" where
  "get_version (NameString s) = Undefined"
| "get_version (Object p) = version p"

fun get_dependencyType :: "resource_value \<Rightarrow> val" where
  "get_dependencyType (NameString s) = Undefined"
| "get_dependencyType (Object p) = dependencyType p"

text \<open>
  How a promise was settled: \<open>outsideResolve()\<close> passes no value,
  \<open>outsideReject\<close> passes a string.
\<close>

datatype settlement = Resolved | Rejected string

text \<open>
  An entry of \<open>installs\<close>. \<open>outsideResolve\<close> and \<open>outsideReject\<close> are the two
  callbacks of one promise created by \<open>createInstall\<close>; the field \<open>promise\<close> is
  the identity of that promise, and a call of either callback is logged under it.
\<close>

record install =
  promise :: nat
  resource :: resource_value

text \<open>The outcome of \<open>await execa(...)\<close>: it returns, or throws an error with a \<open>shortMessage\<close>.\<close>

datatype exec_result = ExecOk | ExecFail string

text \<open>The exception of reading a property of \<open>undefined\<close>.\<close>

datatype error = TypeError

text \<open>
  A suspended call of \<open>executeInstalls\<close>: its local variables \<open>packagesToInstall\<close>,
  \<open>depType\<close> and \<open>commands\<close>, and its argument \<open>root\<close> (the \<open>cwd\<close> of the
  installer).
\<close>

record pass =
  packagesToInstall :: "install list"
  pass_depType :: val
  commands :: "string list option"
  cwd :: string

text \<open>
  The state of the module and of its collaborators: the queue \<open>installs\<close>, the
  counter of promises created so far, the clock and the pending timer of the debounced
  function (deadline and last argument), the lock on \<open>package.json\<close> with the calls
  suspended on it, the call suspended on \<open>execa\<close>, and the logs of what happened:
  settlements, installer invocations (file, arguments, cwd), the times at which the
  debounced function fired, and the exceptions no one caught.
\<close>

record scheduler =
  installs :: "install list"
  fresh :: nat
  now :: nat
  timer :: "(nat \<times> string) option"
  locked :: bool
  waiting :: "pass list"
  executing :: "pass option"
  settled :: "(nat \<times> settlement) list"
  execa_calls :: "(string \<times> string list option \<times> string) list"
  fired :: "nat list"
  uncaught :: "error list"

definition init :: scheduler where
  "init = \<lparr>installs = [], fresh = 0, now = 0, timer = None, locked = False,
     waiting = [], executing = None, settled = [], execa_calls = [], fired = [],
     uncaught = []\<rparr>"

subsection \<open>The package manager and its command line\<close>


text \<open>Line 69: the template literal \<open>`${n.name}@${n.version}`\<close> of every resource.\<close>

definition getPackageNames :: "resource_value list \<Rightarrow> string list" where
  "getPackageNames packages =
     map (\<lambda>n. to_string (get_name n) @ ''@'' @ to_string (get_version n)) packages"

text \<open>
  Lines 71-99. \<open>depType\<close> is what line 114 read from the first resource, so it can be
  \<open>undefined\<close>; \<open>===\<close> then compares it with the string \<open>development\<close>. \<open>None\<close> is
  the \<open>undefined\<close> returned for any other package manager.
\<close>

definition generateClientCommands :: "string \<Rightarrow> val \<Rightarrow> string list \<Rightarrow> string list option" where
  "generateClientCommands packageManager depType packageNames =
     (if packageManager = ''yarn'' then
        Some (([''add'', ''-W'']
               @ (if depType = Str ''development'' then [''--dev''] else []))
              @ packageNames)
      else if packageManager = ''npm'' then
        Some (([''install'']
               @ (if depType = Str ''development'' then [''--save-dev''] else []))
              @ packageNames)
      else None)"

subsection \<open>The rejection payload\<close>

text \<open>
  \<open>JSON.stringify\<close> of an object with the two string properties \<open>message\<close> and
  \<open>installationError\<close>. A string is quoted with the escapes of the JSON grammar:
  the quote, the backslash, the five named control characters, and \<open>\u00xx\<close> for the
  other code units below 0x20.
\<close>

definition hex_digit :: "nat \<Rightarrow> char" where
  "hex_digit n = ''0123456789abcdef'' ! (n mod 16)"

definition JSON_escape :: "char \<Rightarrow> string" where
  "JSON_escape c =
     (if c = CHR 0x22 then [CHR 0x5C, CHR 0x22]
      else if c = CHR 0x5C then [CHR 0x5C, CHR 0x5C]
      else if c = CHR 0x08 then [CHR 0x5C, CHR ''b'']
      else if c = CHR 0x0C then [CHR 0x5C, CHR ''f'']
      else if c = CHR 0x0A then [CHR 0x5C, CHR ''n'']
      else if c = CHR 0x0D then [CHR 0x5C, CHR ''r'']
      else if c = CHR 0x09 then [CHR 0x5C, CHR ''t'']
      else if (of_char c :: nat) < 32 then
        [CHR 0x5C, CHR ''u'', CHR ''0'', CHR ''0'',
         hex_digit ((of_char c :: nat) div 16), hex_digit (of_char c :: nat)]
      else [c])"

definition JSON_quote :: "string \<Rightarrow> string" where
  "JSON_quote s = [CHR 0x22] @ concat (map JSON_escape s) @ [CHR 0x22]"

definition installationError :: string where
  "installationError = ''Could not install package''"

text \<open>Lines 141-144.\<close>

definition reject_payload :: "string \<Rightarrow> string" where
  "reject_payload shortMessage =
     ''{'' @ JSON_quote ''message'' @ '':'' @ JSON_quote shortMessage @ '',''
       @ JSON_quote ''installationError'' @ '':'' @ JSON_quote installationError @ ''}''"

subsection \<open>The flush routine\<close>

text \<open>
  Lines 108-129, the segment of \<open>executeInstalls\<close> before \<open>await lock\<close>.
  \<open>installs[0].resource\<close> throws when the queue is empty. \<open>_.groupBy\<close> keeps the
  queue order inside a group and keys the groups by the string of the dependency type,
  so \<open>types[depType]\<close> is the queue filtered by the key of its first entry. The filter
  of lines 116-119 compares the \<open>name\<close> properties with \<open>===\<close>. The call then
  suspends on the lock.
\<close>

definition executeInstalls :: "string \<Rightarrow> string \<Rightarrow> scheduler \<Rightarrow> error + scheduler" where
  "executeInstalls pm root s =
     (case installs s of
        [] \<Rightarrow> Inl TypeError
      | first # _ \<Rightarrow>
          let depType = get_dependencyType (resource first);
              group = filter (\<lambda>c. to_string (get_dependencyType (resource c))
                                    = to_string depType) (installs s);
              remaining = filter (\<lambda>i. \<not> list_ex (\<lambda>p. get_name (resource i)
                                                         = get_name (resource p)) group)
                            (installs s);
              pkgs = map resource group;
              packageNames = getPackageNames pkgs;
              cmds = generateClientCommands pm depType packageNames
          in Inr (s\<lparr>installs := remaining,
                    waiting := waiting s
                      @ [\<lparr>packagesToInstall = group, pass_depType = depType,
                          commands = cmds, cwd = root\<rparr>]\<rparr>))"

text \<open>
  Modelled from the spec: the function \<open>lock\<close> of \<open>gatsby-core-utils\<close>, which is not
  among the sources. The spec describes it as a scoped lock keyed by resource name whose
  acquire suspends until the lock is available. Here the lock on \<open>package.json\<close> is
  the flag \<open>locked\<close>; when it is free the longest-suspended call obtains it, and that
  call goes on to line 133, the invocation of \<open>execa\<close> with the package manager, the
  commands and the working directory.
\<close>

definition lock_granted :: "string \<Rightarrow> scheduler \<Rightarrow> scheduler" where
  "lock_granted pm s =
     (if locked s then s
      else case waiting s of
        [] \<Rightarrow> s
      | p # ps \<Rightarrow>
          s\<lparr>locked := True, waiting := ps, executing := Some p,
            execa_calls := execa_calls s @ [(pm, commands p, cwd p)]\<rparr>)"

text \<open>
  A call of \<open>executeInstalls\<close> that is not awaited (the timer's, line 161, and the
  recursive one, line 155): an exception of the first segment is a rejected promise that
  nobody handles.
\<close>

definition spawn_executeInstalls :: "string \<Rightarrow> string \<Rightarrow> scheduler \<Rightarrow> scheduler" where
  "spawn_executeInstalls pm root s =
     (case executeInstalls pm root s of
        Inl e \<Rightarrow> s\<lparr>uncaught := uncaught s @ [e]\<rparr>
      | Inr s' \<Rightarrow> s')"

text \<open>
  Lines 136-158, the segment after \<open>await execa\<close>. When the installer threw, the
  \<open>catch\<close> block rejects every promise of the group and returns. Otherwise the lock
  is released, every promise of the group is resolved, and \<open>executeInstalls\<close> is
  called again when the queue is not empty.
\<close>

definition execa_settled :: "string \<Rightarrow> exec_result \<Rightarrow> scheduler \<Rightarrow> scheduler" where
  "execa_settled pm r s =
     (case executing s of
        None \<Rightarrow> s
      | Some p \<Rightarrow>
          (case r of
             ExecFail shortMessage \<Rightarrow>
               s\<lparr>executing := None,
                 settled := settled s
                   @ map (\<lambda>i. (promise i, Rejected (reject_payload shortMessage)))
                       (packagesToInstall p)\<rparr>
           | ExecOk \<Rightarrow>
               let s1 = s\<lparr>executing := None, locked := False\<rparr>;
                   s2 = s1\<lparr>settled := settled s1
                          @ map (\<lambda>i. (promise i, Resolved)) (packagesToInstall p)\<rparr>
               in if length (installs s2) > 0 then spawn_executeInstalls pm (cwd p) s2
                  else s2))"

subsection \<open>Enqueueing and the debounce timer\<close>

text \<open>
  Modelled from the spec: \<open>_.debounce\<close> of lodash, which is not among the sources.
  Line 161 wraps \<open>executeInstalls\<close> with a wait of 25 and the default options, which
  the spec describes as a trailing-edge debounce: every call (re)arms one timer that
  fires the delay after the last call, with that call's argument. Time is a logical
  clock that advances by \<open>Tick\<close> events.
\<close>

definition debouncedExecute :: "string \<Rightarrow> scheduler \<Rightarrow> scheduler" where
  "debouncedExecute root s = s\<lparr>timer := Some (now s + 25, root)\<rparr>"

text \<open>Lines 168-186. The promise returned to the caller is the first component.\<close>

definition createInstall :: "string \<Rightarrow> resource_value \<Rightarrow> scheduler \<Rightarrow> nat \<times> scheduler" where
  "createInstall root nm s =
     (let p = fresh s;
          s1 = s\<lparr>fresh := Suc (fresh s)\<rparr>;
          s2 = s1\<lparr>installs := installs s1 @ [\<lparr>promise = p, resource = nm\<rparr>]\<rparr>
      in (p, debouncedExecute root s2))"

text \<open>One unit of time passes; the timer fires when its deadline is reached.\<close>

definition tick :: "string \<Rightarrow> scheduler \<Rightarrow> scheduler" where
  "tick pm s =
     (let s1 = s\<lparr>now := Suc (now s)\<rparr>
      in case timer s1 of
           None \<Rightarrow> s1
         | Some (deadline, root) \<Rightarrow>
             if deadline \<le> now s1
             then spawn_executeInstalls pm root
                    (s1\<lparr>timer := None, fired := fired s1 @ [now s1]\<rparr>)
             else s1)"


subsection \<open>The event loop\<close>

datatype event = Enqueue string resource_value | Tick | ExecaDone exec_result

text \<open>
  Each event runs one synchronous segment of the module; afterwards the lock, if free,
  passes to a suspended call.
\<close>

fun step :: "string \<Rightarrow> event \<Rightarrow> scheduler \<Rightarrow> scheduler" where
  "step pm (Enqueue root nm) s = lock_granted pm (snd (createInstall root nm s))"
| "step pm Tick s = lock_granted pm (tick pm s)"
| "step pm (ExecaDone r) s = lock_granted pm (execa_settled pm r s)"

fun run :: "string \<Rightarrow> event list \<Rightarrow> scheduler \<Rightarrow> scheduler" where
  "run pm [] s = s"
| "run pm (e # es) s = run pm es (step pm e s)"

text \<open>
  The classification key of a queue entry, and the group a flush of queue \<open>q\<close>
  services: the entries with the key of the first.
\<close>

definition key_of :: "install \<Rightarrow> string" where
  "key_of i = to_string (get_dependencyType (resource i))"

definition group_of :: "install list \<Rightarrow> install list" where
  "group_of q =
     (case q of
        [] \<Rightarrow> []
      | first # _ \<Rightarrow> filter (\<lambda>c. key_of c = key_of first) q)"



text \<open>
  The promises whose callbacks the module still holds: those of the entries in the
  queue and of the suspended calls.
\<close>

definition held :: "scheduler \<Rightarrow> nat list" where
  "held s =
     map promise (installs s)
       @ concat (map (\<lambda>p. map promise (packagesToInstall p)) (waiting s))
       @ (case executing s of None \<Rightarrow> [] | Some p \<Rightarrow> map promise (packagesToInstall p))"

subsection \<open>States the module can be in\<close>

text \<open>
  What holds of a suspended call: its group is not empty, its members have the key of
  its \<open>depType\<close>, and its commands are those of lines 122-129.
\<close>

definition pass_ok :: "string \<Rightarrow> pass \<Rightarrow> bool" where
  "pass_ok pm p \<longleftrightarrow>
     packagesToInstall p \<noteq> []
     \<and> list_all (\<lambda>i. key_of i = to_string (pass_depType p)) (packagesToInstall p)
     \<and> commands p = generateClientCommands pm (pass_depType p)
                        (getPackageNames (map resource (packagesToInstall p)))"

text \<open>The promises settled so far followed by the promises still held.\<close>

definition known :: "scheduler \<Rightarrow> nat list" where
  "known s = map fst (settled s) @ held s"

text \<open>
  What holds after every segment: a call is suspended on the installer only while the
  lock is held; the suspended calls are as above and the last invocation of the installer
  is that of the call suspended on it; every invocation ran the package manager, with no
  arguments when it is neither yarn nor npm; and no promise is both settled and held, or
  settled or held twice. After every event, moreover, a call is suspended on the lock only
  while the lock is held.
\<close>

definition passes_ok :: "string \<Rightarrow> scheduler \<Rightarrow> bool" where
  "passes_ok pm s \<longleftrightarrow>
     (executing s \<noteq> None \<longrightarrow> locked s)
     \<and> list_all (pass_ok pm) (waiting s)
     \<and> (case executing s of
          None \<Rightarrow> True
        | Some p \<Rightarrow> pass_ok pm p \<and> execa_calls s \<noteq> []
                    \<and> last (execa_calls s) = (pm, commands p, cwd p))
     \<and> list_all (\<lambda>c. fst c = pm
                       \<and> (pm \<noteq> ''yarn'' \<and> pm \<noteq> ''npm'' \<longrightarrow> fst (snd c) = None))
           (execa_calls s)"

definition promises_ok :: "scheduler \<Rightarrow> bool" where
  "promises_ok s \<longleftrightarrow> distinct (known s) \<and> list_all (\<lambda>k. k < fresh s) (known s)"

definition segment_ok :: "string \<Rightarrow> scheduler \<Rightarrow> bool" where
  "segment_ok pm s \<longleftrightarrow> passes_ok pm s \<and> promises_ok s"

definition consistent :: "string \<Rightarrow> scheduler \<Rightarrow> bool" where
  "consistent pm s \<longleftrightarrow> segment_ok pm s \<and> (waiting s \<noteq> [] \<longrightarrow> locked s)"

subsection \<open>Example requests\<close>

text \<open>Requests as \<open>IPackageCreateInput\<close> declares them.\<close>

definition plugin_a :: resource_value where
  "plugin_a = NameString ''gatsby-plugin-a''"

definition plugin_b :: resource_value where
  "plugin_b = NameString ''gatsby-plugin-b''"

text \<open>Requests whose resource is an object with the three properties.\<close>

definition pkg_a :: resource_value where
  "pkg_a = Object \<lparr>name = Str ''pkg-a'', version = Str ''1.0.0'',
                    dependencyType = Str ''production''\<rparr>"

definition pkg_a_dev :: resource_value where
  "pkg_a_dev = Object \<lparr>name = Str ''pkg-a'', version = Str ''1.0.0'',
                        dependencyType = Str ''development''\<rparr>"

definition pkg_b :: resource_value where
  "pkg_b = Object \<lparr>name = Str ''pkg-b'', version = Str ''0.3.1'',
                    dependencyType = Str ''production''\<rparr>"

definition pkg_c :: resource_value where
  "pkg_c = Object \<lparr>name = Str ''pkg-c'', version = Str ''2.0.0'',
                    dependencyType = Str ''development''\<rparr>"

section \<open>Properties of the segments\<close>

lemma run_append: "run pm (xs @ ys) s = run pm ys (run pm xs s)"
  by (induction xs arbitrary: s) simp_all


lemma group_same_key:
  assumes "i \<in> set (group_of (first # rest))"
  shows "key_of i = key_of first"
  using assms by (auto simp: group_of_def)

lemma executeInstalls_Cons:
  assumes "installs s = first # rest"
  shows "executeInstalls pm root s =
    Inr (s\<lparr>installs := filter (\<lambda>i. \<not> list_ex (\<lambda>p. get_name (resource i) = get_name (resource p))
                                    (group_of (installs s))) (installs s),
           waiting := waiting s @
             [\<lparr>packagesToInstall = group_of (installs s),
               pass_depType = get_dependencyType (resource first),
               commands = generateClientCommands pm (get_dependencyType (resource first))
                            (getPackageNames (map resource (group_of (installs s)))),
               cwd = root\<rparr>]\<rparr>)"
  using assms by (simp add: executeInstalls_def group_of_def key_of_def Let_def)

lemma spawn_keeps:
  "fresh (spawn_executeInstalls pm root s) = fresh s"
  "now (spawn_executeInstalls pm root s) = now s"
  "timer (spawn_executeInstalls pm root s) = timer s"
  "locked (spawn_executeInstalls pm root s) = locked s"
  "executing (spawn_executeInstalls pm root s) = executing s"
  "settled (spawn_executeInstalls pm root s) = settled s"
  "execa_calls (spawn_executeInstalls pm root s) = execa_calls s"
  "fired (spawn_executeInstalls pm root s) = fired s"
  by (simp_all add: spawn_executeInstalls_def executeInstalls_def Let_def split: list.split)

lemma spawn_Cons:
  assumes "installs s = first # rest"
  shows "spawn_executeInstalls pm root s =
    s\<lparr>installs := filter (\<lambda>i. \<not> list_ex (\<lambda>p. get_name (resource i) = get_name (resource p))
                               (group_of (installs s))) (installs s),
      waiting := waiting s @
             [\<lparr>packagesToInstall = group_of (installs s),
               pass_depType = get_dependencyType (resource first),
               commands = generateClientCommands pm (get_dependencyType (resource first))
                            (getPackageNames (map resource (group_of (installs s)))),
               cwd = root\<rparr>]\<rparr>"
  by (simp add: spawn_executeInstalls_def executeInstalls_Cons [OF assms])

lemma spawn_Nil:
  assumes "installs s = []"
  shows "spawn_executeInstalls pm root s = s\<lparr>uncaught := uncaught s @ [TypeError]\<rparr>"
  using assms by (simp add: spawn_executeInstalls_def executeInstalls_def)

lemma lock_granted_keeps:
  "installs (lock_granted pm s) = installs s"
  "fresh (lock_granted pm s) = fresh s"
  "now (lock_granted pm s) = now s"
  "timer (lock_granted pm s) = timer s"
  "settled (lock_granted pm s) = settled s"
  "fired (lock_granted pm s) = fired s"
  "uncaught (lock_granted pm s) = uncaught s"
  by (simp_all add: lock_granted_def split: list.split)

lemma lock_granted_locked: "locked s \<Longrightarrow> lock_granted pm s = s"
  by (simp add: lock_granted_def)

lemma lock_granted_idle: "waiting s = [] \<Longrightarrow> lock_granted pm s = s"
  by (simp add: lock_granted_def)

subsection \<open>Package names and flags\<close>

lemma no_at_neq:
  assumes "CHR ''@'' \<notin> set flag"
  shows "flag \<noteq> nm @ ''@'' @ ver" and "nm @ ''@'' @ ver \<noteq> flag"
  using assms by auto

lemmas flag_neq_name =
  no_at_neq [of "''add''", simplified] no_at_neq [of "''-W''", simplified]
  no_at_neq [of "''--dev''", simplified] no_at_neq [of "''install''", simplified]
  no_at_neq [of "''--save-dev''", simplified]



subsection \<open>Settling a group\<close>

lemma execa_settled_Fail:
  assumes "executing s = Some p"
  shows "execa_settled pm (ExecFail m) s =
     s\<lparr>executing := None,
       settled := settled s
         @ map (\<lambda>i. (promise i, Rejected (reject_payload m))) (packagesToInstall p)\<rparr>"
  using assms by (simp add: execa_settled_def)


lemma settled_tick: "settled (tick pm s) = settled s"
  by (simp add: tick_def Let_def spawn_keeps split: option.split)



subsection \<open>The rejection payload\<close>

lemma quoted_keys:
  \<open>JSON_quote ''message'' = ''"message"''\<close>
  \<open>JSON_quote ''installationError'' = ''"installationError"''\<close>
  \<open>JSON_quote installationError = ''"Could not install package"''\<close>
  by code_simp+

subsection \<open>Promises the module no longer holds\<close>

lemma held_spawn: "set (held (spawn_executeInstalls pm root s)) \<subseteq> set (held s)"
  by (auto simp: held_def spawn_executeInstalls_def executeInstalls_def Let_def
        split: list.splits option.splits)

lemma held_lock_granted: "set (held (lock_granted pm s)) \<subseteq> set (held s)"
  by (auto simp: held_def lock_granted_def split: list.splits option.splits)

lemma held_execa_settled: "set (held (execa_settled pm r s)) \<subseteq> set (held s)"
proof (cases "executing s")
  case None
  then show ?thesis by (simp add: execa_settled_def)
next
  case (Some p)
  show ?thesis
  proof (cases r)
    case ExecOk
    let ?s2 = "s\<lparr>executing := None, locked := False,
                 settled := settled s @ map (\<lambda>i. (promise i, Resolved)) (packagesToInstall p)\<rparr>"
    have "set (held ?s2) \<subseteq> set (held s)"
      by (auto simp: held_def split: option.splits)
    moreover have "set (held (spawn_executeInstalls pm (cwd p) ?s2)) \<subseteq> set (held ?s2)"
      by (rule held_spawn)
    ultimately show ?thesis
      using Some ExecOk by (auto simp: execa_settled_def Let_def)
  next
    case (ExecFail m)
    then show ?thesis
      using Some by (auto simp: execa_settled_def held_def)
  qed
qed

lemma held_tick: "set (held (tick pm s)) \<subseteq> set (held s)"
proof -
  have same: "held (s'\<lparr>now := n\<rparr>) = held s'" "held (s'\<lparr>timer := t, fired := f\<rparr>) = held s'"
    for s' :: scheduler and n t f
    by (simp_all add: held_def)
  show ?thesis
    using held_spawn [of pm _ "s\<lparr>now := Suc (now s), timer := None,
                                 fired := fired s @ [Suc (now s)]\<rparr>"]
    by (auto simp: tick_def Let_def held_def split: option.splits)
qed


lemma held_createInstall:
  "set (held (snd (createInstall root nm s))) = insert (fresh s) (set (held s))"
  by (auto simp: createInstall_def debouncedExecute_def held_def Let_def)

lemma settled_execa_settled:
  "fst ` set (settled (execa_settled pm r s)) \<subseteq> fst ` set (settled s) \<union> set (held s)"
  by (cases "executing s"; cases r)
     (auto simp: execa_settled_def Let_def spawn_keeps held_def)

lemma fresh_step: "fresh s \<le> fresh (step pm e s)"
  by (cases e)
     (simp_all add: lock_granted_keeps createInstall_def debouncedExecute_def Let_def
        tick_def spawn_keeps execa_settled_def split: option.split exec_result.split)

lemma step_unheld:
  assumes "k \<notin> set (held s)" and "k < fresh s" and "k \<notin> fst ` set (settled s)"
  shows "k \<notin> set (held (step pm e s)) \<and> k < fresh (step pm e s)
       \<and> k \<notin> fst ` set (settled (step pm e s))"
proof -
  have f: "k < fresh (step pm e s)"
    using assms(2) fresh_step [of s pm e] by simp
  have h: "k \<notin> set (held (step pm e s))"
  proof (cases e)
    case (Enqueue root nm)
    then show ?thesis
      using assms(1,2) held_lock_granted [of pm "snd (createInstall root nm s)"]
      by (auto simp: held_createInstall)
  next
    case Tick
    then show ?thesis
      using assms(1) held_lock_granted [of pm "tick pm s"] held_tick [of pm s] by auto
  next
    case (ExecaDone r)
    then show ?thesis
      using assms(1) held_lock_granted [of pm "execa_settled pm r s"]
        held_execa_settled [of pm r s] by auto
  qed
  have c: "k \<notin> fst ` set (settled (step pm e s))"
  proof (cases e)
    case (Enqueue root nm)
    then show ?thesis
      using assms(3)
      by (simp add: lock_granted_keeps createInstall_def debouncedExecute_def Let_def)
  next
    case Tick
    then show ?thesis
      using assms(3) by (simp add: lock_granted_keeps settled_tick)
  next
    case (ExecaDone r)
    then show ?thesis
      using assms(1,3) settled_execa_settled [of pm r s]
      by (auto simp: lock_granted_keeps)
  qed
  from h f c show ?thesis by simp
qed

lemma unheld_never_settled:
  assumes "k \<notin> set (held s)" and "k < fresh s" and "k \<notin> fst ` set (settled s)"
  shows "k \<notin> fst ` set (settled (run pm es s))"
  using assms
proof (induction es arbitrary: s)
  case Nil
  then show ?case by simp
next
  case (Cons e es)
  from step_unheld [OF Cons.prems, of pm e] Cons.IH [of "step pm e s"]
  show ?case by simp
qed

lemma leaked_lock_step:
  assumes "locked s" and "executing s = None"
  shows "locked (step pm e s) \<and> executing (step pm e s) = None
       \<and> settled (step pm e s) = settled s \<and> execa_calls (step pm e s) = execa_calls s"
proof (cases e)
  case (Enqueue root nm)
  have "locked (snd (createInstall root nm s))"
    using assms(1) by (simp add: createInstall_def debouncedExecute_def Let_def)
  then show ?thesis
    using Enqueue assms
    by (simp add: lock_granted_locked) (simp add: createInstall_def debouncedExecute_def Let_def)
next
  case Tick
  have "locked (tick pm s)"
    using assms(1) by (simp add: tick_def Let_def spawn_keeps split: option.split)
  then show ?thesis
    using Tick assms
    by (simp add: lock_granted_locked) (simp add: tick_def Let_def spawn_keeps split: option.split)
next
  case (ExecaDone r)
  then show ?thesis
    using assms by (simp add: execa_settled_def lock_granted_locked)
qed

lemma leaked_lock_forever:
  assumes "locked s" and "executing s = None"
  shows "locked (run pm es s) \<and> executing (run pm es s) = None
       \<and> settled (run pm es s) = settled s \<and> execa_calls (run pm es s) = execa_calls s"
  using assms
proof (induction es arbitrary: s)
  case Nil
  then show ?case by simp
next
  case (Cons e es)
  from leaked_lock_step [OF Cons.prems, of pm e] Cons.IH [of "step pm e s"]
  show ?case by simp
qed

subsection \<open>The debounce timer\<close>



declare step.simps [simp del]






declare step.simps [simp]

subsection \<open>States the event loop reaches\<close>

lemma distinct_submset:
  assumes "mset ys \<subseteq># mset xs" and "distinct xs"
  shows "distinct ys"
proof -
  have le: "count (mset ys) a \<le> count (mset xs) a" for a
    using assms(1) by (rule mset_subset_eq_count)
  have one: "count (mset xs) a \<le> 1" for a
    using assms(2) by (simp add: distinct_count_atmost_1)
  have "count (mset ys) a = (if a \<in> set ys then 1 else 0)" for a
  proof (cases "a \<in> set ys")
    case True
    then have "count (mset ys) a \<noteq> 0" by (simp add: count_mset_0_iff)
    with le [of a] one [of a] have "count (mset ys) a = 1" by arith
    with True show ?thesis by simp
  next
    case False
    then show ?thesis by (simp add: count_eq_zero_iff)
  qed
  then show ?thesis by (simp add: distinct_count_atmost_1)
qed

lemma submset_add_mset: "A \<subseteq># B \<Longrightarrow> A \<subseteq># add_mset a B"
  by (auto simp: subseteq_mset_def le_SucI)

lemma partition_submset:
  assumes "\<And>x. x \<in> set xs \<Longrightarrow> Q x \<Longrightarrow> \<not> R x"
  shows "mset (filter R xs) + mset (filter Q xs) \<subseteq># mset xs"
  using assms by (induction xs) (auto intro: submset_add_mset)

lemma mset_held:
  "mset (held s) =
     image_mset promise (mset (installs s))
       + mset (concat (map (\<lambda>p. map promise (packagesToInstall p)) (waiting s)))
       + (case executing s of None \<Rightarrow> {#}
          | Some p \<Rightarrow> image_mset promise (mset (packagesToInstall p)))"
  by (simp add: held_def split: option.split)

lemma remaining_and_group:
  "image_mset promise (mset (filter (\<lambda>i. \<not> list_ex (\<lambda>p. get_name (resource i) = get_name (resource p))
                               (group_of q)) q))
     + image_mset promise (mset (group_of q)) \<subseteq># image_mset promise (mset q)"
proof (cases q)
  case Nil
  then show ?thesis by (simp add: group_of_def)
next
  case (Cons first rest)
  let ?Q = "\<lambda>c. key_of c = key_of first"
  let ?R = "\<lambda>i. \<not> list_ex (\<lambda>p. get_name (resource i) = get_name (resource p)) (filter ?Q q)"
  have g: "group_of q = filter ?Q q" using Cons by (simp add: group_of_def)
  have "mset (filter ?R q) + mset (filter ?Q q) \<subseteq># mset q"
    by (rule partition_submset) (auto simp: list_ex_iff)
  then have "image_mset promise (mset (filter ?R q) + mset (filter ?Q q))
      \<subseteq># image_mset promise (mset q)"
    by (rule image_mset_subseteq_mono)
  then show ?thesis by (simp add: g)
qed

lemma known_spawn: "mset (known (spawn_executeInstalls pm root s)) \<subseteq># mset (known s)"
proof (cases "installs s")
  case Nil
  then show ?thesis by (simp add: spawn_Nil known_def held_def)
next
  case (Cons first rest)
  have "mset (held (spawn_executeInstalls pm root s)) \<subseteq># mset (held s)"
    using remaining_and_group [of "installs s"]
    by (simp add: spawn_Cons [OF Cons] mset_held ac_simps split: option.split)
  then show ?thesis
    by (simp add: known_def spawn_keeps)
qed

lemma known_lock_granted: "mset (known (lock_granted pm s)) \<subseteq># mset (known s)"
  by (cases "waiting s"; cases "executing s")
     (simp_all add: known_def lock_granted_def mset_held ac_simps)

lemma known_execa_settled: "mset (known (execa_settled pm r s)) \<subseteq># mset (known s)"
proof (cases "executing s")
  case None
  then show ?thesis by (simp add: execa_settled_def)
next
  case (Some p)
  show ?thesis
  proof (cases r)
    case (ExecFail m)
    then show ?thesis
      using Some by (simp add: execa_settled_Fail known_def mset_held comp_def ac_simps)
  next
    case ExecOk
    let ?s2 = "s\<lparr>executing := None, locked := False,
                 settled := settled s @ map (\<lambda>i. (promise i, Resolved)) (packagesToInstall p)\<rparr>"
    have a: "mset (known ?s2) \<subseteq># mset (known s)"
      using Some by (simp add: known_def mset_held comp_def ac_simps)
    have b: "mset (known (spawn_executeInstalls pm (cwd p) ?s2)) \<subseteq># mset (known ?s2)"
      by (rule known_spawn)
    have "execa_settled pm ExecOk s = ?s2 \<or>
          execa_settled pm ExecOk s = spawn_executeInstalls pm (cwd p) ?s2"
      using Some by (simp add: execa_settled_def Let_def)
    with a b ExecOk show ?thesis
      by (auto intro: subset_mset.order_trans)
  qed
qed

lemma known_tick: "mset (known (tick pm s)) \<subseteq># mset (known s)"
proof -
  have same: "known (s\<lparr>now := n\<rparr>) = known s"
    "known (s\<lparr>now := n, timer := t, fired := f\<rparr>) = known s" for n t f
    by (simp_all add: known_def held_def)
  show ?thesis
    using known_spawn [of pm _ "s\<lparr>now := Suc (now s), timer := None,
                                  fired := fired s @ [Suc (now s)]\<rparr>"]
    by (auto simp: tick_def Let_def same split: option.splits)
qed

lemma mset_known_createInstall:
  "mset (known (snd (createInstall root nm s))) = add_mset (fresh s) (mset (known s))"
  by (simp add: known_def held_def createInstall_def debouncedExecute_def Let_def)

lemma pass_ok_new:
  "pass_ok pm \<lparr>packagesToInstall = group_of (first # rest),
               pass_depType = get_dependencyType (resource first),
               commands = generateClientCommands pm (get_dependencyType (resource first))
                            (getPackageNames (map resource (group_of (first # rest)))),
               cwd = root\<rparr>"
  by (simp add: pass_ok_def list_all_iff group_of_def key_of_def)

lemma passes_ok_cong:
  assumes "executing t = executing s" and "locked t = locked s" and "waiting t = waiting s"
    and "execa_calls t = execa_calls s"
  shows "passes_ok pm t = passes_ok pm s"
  using assms by (simp add: passes_ok_def cong: option.case_cong)

lemma promises_ok_mono:
  assumes "promises_ok s" and "mset (known t) \<subseteq># mset (known s)" and "fresh s \<le> fresh t"
  shows "promises_ok t"
proof -
  have d: "distinct (known t)"
    using assms(1) distinct_submset [OF assms(2)] by (simp add: promises_ok_def)
  have "set (known t) \<subseteq> set (known s)"
    using set_mset_mono [OF assms(2)] by simp
  with assms(1,3) have "list_all (\<lambda>k. k < fresh t) (known t)"
    by (fastforce simp: list_all_iff promises_ok_def)
  with d show ?thesis by (simp add: promises_ok_def)
qed

lemma passes_ok_spawn:
  assumes "passes_ok pm s"
  shows "passes_ok pm (spawn_executeInstalls pm root s)"
proof (cases "installs s")
  case Nil
  then show ?thesis
    using assms passes_ok_cong [of "s\<lparr>uncaught := uncaught s @ [TypeError]\<rparr>" s pm]
    by (simp add: spawn_Nil)
next
  case (Cons first rest)
  let ?p = "\<lparr>packagesToInstall = group_of (installs s),
               pass_depType = get_dependencyType (resource first),
               commands = generateClientCommands pm (get_dependencyType (resource first))
                            (getPackageNames (map resource (group_of (installs s)))),
               cwd = root\<rparr>"
  have p: "pass_ok pm ?p"
    using pass_ok_new [of pm first rest root] by (simp add: Cons)
  have w: "waiting (spawn_executeInstalls pm root s) = waiting s @ [?p]"
    by (simp add: spawn_Cons [OF Cons])
  show ?thesis
    using assms p
    unfolding passes_ok_def w spawn_keeps
    by simp
qed

lemma segment_ok_spawn:
  assumes "segment_ok pm s"
  shows "segment_ok pm (spawn_executeInstalls pm root s)"
  using assms passes_ok_spawn [of pm s root]
    promises_ok_mono [OF _ known_spawn [of pm root s]]
  by (simp add: segment_ok_def spawn_keeps)

lemma segment_ok_tick:
  assumes "segment_ok pm s"
  shows "segment_ok pm (tick pm s)"
proof -
  have pa: "passes_ok pm (tick pm s)"
  proof -
    have a: "passes_ok pm (s\<lparr>now := n\<rparr>)" for n
      using assms passes_ok_cong [of "s\<lparr>now := n\<rparr>" s pm] by (simp add: segment_ok_def)
    have b: "passes_ok pm (s\<lparr>now := n, timer := t, fired := f\<rparr>)" for n t f
      using assms passes_ok_cong [of "s\<lparr>now := n, timer := t, fired := f\<rparr>" s pm]
      by (simp add: segment_ok_def)
    show ?thesis
      using a b passes_ok_spawn
      by (auto simp: tick_def Let_def split: option.splits)
  qed
  have f: "fresh (tick pm s) = fresh s"
    by (simp add: tick_def Let_def spawn_keeps split: option.split)
  have pr: "promises_ok (tick pm s)"
    using assms promises_ok_mono [OF _ known_tick [of pm s]]
    by (simp add: segment_ok_def f)
  from pa pr show ?thesis by (simp add: segment_ok_def)
qed

lemma segment_ok_createInstall:
  assumes "segment_ok pm s"
  shows "segment_ok pm (snd (createInstall root nm s))"
proof -
  let ?t = "snd (createInstall root nm s)"
  have same: "executing ?t = executing s" "locked ?t = locked s" "waiting ?t = waiting s"
    "execa_calls ?t = execa_calls s"
    by (simp_all add: createInstall_def debouncedExecute_def Let_def)
  have f: "fresh ?t = Suc (fresh s)"
    by (simp add: createInstall_def debouncedExecute_def Let_def)
  have pa: "passes_ok pm ?t"
    using assms passes_ok_cong [OF same, of pm] by (simp add: segment_ok_def)
  have bound: "list_all (\<lambda>k. k < fresh s) (known s)" and dist: "distinct (known s)"
    using assms by (simp_all add: segment_ok_def promises_ok_def)
  have notin: "fresh s \<notin> set (known s)"
    using bound by (auto simp: list_all_iff)
  have sub: "mset (known ?t) \<subseteq># mset (fresh s # known s)"
    by (simp add: mset_known_createInstall)
  have d: "distinct (known ?t)"
    by (rule distinct_submset [OF sub]) (simp add: notin dist)
  have "set (known ?t) \<subseteq> set (fresh s # known s)"
    using set_mset_mono [OF sub] by simp
  with bound have b: "list_all (\<lambda>k. k < fresh ?t) (known ?t)"
    unfolding f by (fastforce simp: list_all_iff)
  from pa d b show ?thesis
    by (simp add: segment_ok_def promises_ok_def)
qed

lemma passes_ok_execa_settled:
  assumes "passes_ok pm s"
  shows "passes_ok pm (execa_settled pm r s)"
proof (cases "executing s")
  case None
  with assms show ?thesis by (simp add: execa_settled_def)
next
  case (Some p)
  have idle: "passes_ok pm t"
    if "executing t = None" and "locked t = l" and "waiting t = waiting s"
      and "execa_calls t = execa_calls s" for t l
    using assms that by (simp add: passes_ok_def)
  show ?thesis
  proof (cases r)
    case (ExecFail m)
    show ?thesis
      unfolding ExecFail execa_settled_Fail [OF Some]
      by (rule idle [of _ "locked s"]) simp_all
  next
    case ExecOk
    let ?s2 = "s\<lparr>executing := None, locked := False,
                 settled := settled s @ map (\<lambda>i. (promise i, Resolved)) (packagesToInstall p)\<rparr>"
    have s2: "passes_ok pm ?s2"
      by (rule idle [of _ False]) simp_all
    have "execa_settled pm ExecOk s = ?s2 \<or>
          execa_settled pm ExecOk s = spawn_executeInstalls pm (cwd p) ?s2"
      using Some by (simp add: execa_settled_def Let_def)
    with s2 passes_ok_spawn [OF s2, of "cwd p"] show ?thesis
      unfolding ExecOk by auto
  qed
qed

lemma fresh_execa_settled: "fresh (execa_settled pm r s) = fresh s"
  by (cases "executing s"; cases r) (simp_all add: execa_settled_def Let_def spawn_keeps)

lemma segment_ok_execa_settled:
  assumes "segment_ok pm s"
  shows "segment_ok pm (execa_settled pm r s)"
  using assms passes_ok_execa_settled [of pm s r]
    promises_ok_mono [OF _ known_execa_settled [of pm r s]]
  by (simp add: segment_ok_def fresh_execa_settled)

lemma consistent_lock_granted:
  assumes "segment_ok pm s"
  shows "consistent pm (lock_granted pm s)"
proof (cases "locked s \<or> waiting s = []")
  case True
  then have "lock_granted pm s = s"
    by (auto simp: lock_granted_locked lock_granted_idle)
  with assms True show ?thesis
    by (auto simp: consistent_def)
next
  case False
  then obtain p ps where w: "waiting s = p # ps" and l: "\<not> locked s"
    by (cases "waiting s") auto
  let ?t = "s\<lparr>locked := True, waiting := ps, executing := Some p,
               execa_calls := execa_calls s @ [(pm, commands p, cwd p)]\<rparr>"
  have t: "lock_granted pm s = ?t"
    using w l by (simp add: lock_granted_def)
  have pr: "promises_ok ?t"
    using assms promises_ok_mono [OF _ known_lock_granted [of pm s]]
    by (simp add: segment_ok_def t)
  have ok: "pass_ok pm p" "list_all (pass_ok pm) ps"
    using assms w by (simp_all add: segment_ok_def passes_ok_def)
  have none: "pm \<noteq> ''yarn'' \<and> pm \<noteq> ''npm'' \<longrightarrow> commands p = None"
    using ok(1) by (simp add: pass_ok_def generateClientCommands_def)
  have calls: "list_all (\<lambda>c. fst c = pm
                       \<and> (pm \<noteq> ''yarn'' \<and> pm \<noteq> ''npm'' \<longrightarrow> fst (snd c) = None))
           (execa_calls s)"
    using assms by (simp add: segment_ok_def passes_ok_def)
  from ok none calls have "passes_ok pm ?t"
    by (simp add: passes_ok_def)
  with pr show ?thesis
    by (simp add: consistent_def segment_ok_def t)
qed

lemma consistent_step:
  assumes "consistent pm s"
  shows "consistent pm (step pm e s)"
proof -
  have ok: "segment_ok pm s" using assms by (simp add: consistent_def)
  show ?thesis
  proof (cases e)
    case (Enqueue root nm)
    then show ?thesis
      using consistent_lock_granted [OF segment_ok_createInstall [OF ok]] by simp
  next
    case Tick
    then show ?thesis
      using consistent_lock_granted [OF segment_ok_tick [OF ok]] by simp
  next
    case (ExecaDone r)
    then show ?thesis
      using consistent_lock_granted [OF segment_ok_execa_settled [OF ok]] by simp
  qed
qed

lemma consistent_init: "consistent pm init"
  by (simp add: consistent_def segment_ok_def passes_ok_def promises_ok_def init_def
        known_def held_def)

lemma consistent_run_from:
  assumes "consistent pm s"
  shows "consistent pm (run pm es s)"
  using assms by (induction es arbitrary: s) (simp_all add: consistent_step)

lemma consistent_run: "consistent pm (run pm es init)"
  by (rule consistent_run_from [OF consistent_init])

lemma reachable_in_service:
  assumes "executing (run pm es init) = Some p"
  shows "locked (run pm es init)" and "pass_ok pm p"
    and "execa_calls (run pm es init) \<noteq> []"
    and "last (execa_calls (run pm es init)) = (pm, commands p, cwd p)"
  using consistent_run [of pm es] assms
  by (simp_all add: consistent_def segment_ok_def passes_ok_def)



lemma reachable_distinct: "distinct (known (run pm es init))"
  using consistent_run [of pm es]
  by (simp add: consistent_def segment_ok_def promises_ok_def)

lemma reachable_bound:
  assumes "k \<in> set (known (run pm es init))"
  shows "k < fresh (run pm es init)"
  using consistent_run [of pm es] assms
  by (auto simp: consistent_def segment_ok_def promises_ok_def list_all_iff)







lemma unheld_step:
  assumes "k \<notin> set (held s)" and "k < fresh s"
  shows "k \<notin> set (held (step pm e s)) \<and> k < fresh (step pm e s)"
proof -
  have f: "k < fresh (step pm e s)"
    using assms(2) fresh_step [of s pm e] by simp
  have h: "k \<notin> set (held (step pm e s))"
  proof (cases e)
    case (Enqueue root nm)
    then show ?thesis
      using assms held_lock_granted [of pm "snd (createInstall root nm s)"]
      by (auto simp: held_createInstall)
  next
    case Tick
    then show ?thesis
      using assms(1) held_lock_granted [of pm "tick pm s"] held_tick [of pm s] by auto
  next
    case (ExecaDone r)
    then show ?thesis
      using assms(1) held_lock_granted [of pm "execa_settled pm r s"]
        held_execa_settled [of pm r s] by auto
  qed
  from h f show ?thesis by simp
qed

lemma unheld_forever:
  assumes "k \<notin> set (held s)" and "k < fresh s"
  shows "k \<notin> set (held (run pm es s))"
  using assms
proof (induction es arbitrary: s)
  case Nil
  then show ?case by simp
next
  case (Cons e es)
  from unheld_step [OF Cons.prems, of pm e] Cons.IH [of "step pm e s"]
  show ?case by simp
qed


section \<open>The claims\<close>

subsection \<open>C1: every request is settled exactly once\<close>

text \<open>
  Claim C1: every request appended to the queue by \<open>createInstall\<close> has its promise
  settled exactly once, and is never left unsettled once a flush has removed it from the
  queue. The code does not do this, in two ways.

  First, two requests with the same name and different dependency types are enqueued in
  one debounce window. When the timer fires, the flush for the first request's group
  takes both entries out of the queue (line 118 compares names), but only the first is in
  \<open>packagesToInstall\<close>. From then on the module holds the callbacks of promise 0 only,
  and whatever events follow, promise 1 is never resolved and never rejected.

  Second, a request whose installation fails leaves the lock held (the \<open>catch\<close> block
  returns before \<open>release()\<close>). A request enqueued afterwards is taken out of the queue
  by the next flush, which stays suspended on the lock: whatever events follow, nothing
  more is settled. This is shown for requests whose resource is an object and for requests
  made with a string, as \<open>IPackageCreateInput\<close> declares them.
\<close>

theorem C1_dropped_request_never_settled:
  "(let s = run ''yarn''
              ([Enqueue ''/site'' pkg_a, Enqueue ''/site'' pkg_a_dev] @ replicate 25 Tick) init
    in fresh s = 2 \<and> settled s = [] \<and> held s = [0]
       \<and> (\<forall>es. 1 \<notin> fst ` set (settled (run ''yarn'' es s))))
   \<and> (let t = run ''yarn''
              ([Enqueue ''/site'' pkg_a] @ replicate 25 Tick
                 @ [ExecaDone (ExecFail ''Command failed with exit code 1''),
                    Enqueue ''/site'' pkg_b] @ replicate 25 Tick) init
    in fresh t = 2 \<and> installs t = [] \<and> map fst (settled t) = [0]
       \<and> held t = [1] \<and> length (waiting t) = 1
       \<and> (\<forall>es. settled (run ''yarn'' es t) = settled t))
   \<and> (let u = run ''yarn''
              ([Enqueue ''/site'' plugin_a] @ replicate 25 Tick
                 @ [ExecaDone (ExecFail ''Command failed with exit code 1''),
                    Enqueue ''/site'' plugin_b] @ replicate 25 Tick) init
    in fresh u = 2 \<and> installs u = [] \<and> map fst (settled u) = [0]
       \<and> held u = [1] \<and> length (waiting u) = 1
       \<and> (\<forall>es. settled (run ''yarn'' es u) = settled u))"
proof -
  define s where "s = run ''yarn''
              ([Enqueue ''/site'' pkg_a, Enqueue ''/site'' pkg_a_dev] @ replicate 25 Tick) init"
  have a: "fresh s = 2" unfolding s_def by code_simp
  have b: "settled s = []" unfolding s_def by code_simp
  have c: "held s = [0]" unfolding s_def by code_simp
  have "1 \<notin> fst ` set (settled (run ''yarn'' es s))" for es
    by (rule unheld_never_settled) (simp_all add: a b c)
  with a b c have first: "fresh s = 2 \<and> settled s = [] \<and> held s = [0]
       \<and> (\<forall>es. 1 \<notin> fst ` set (settled (run ''yarn'' es s)))"
    by blast
  define t where "t = run ''yarn''
              ([Enqueue ''/site'' pkg_a] @ replicate 25 Tick
                 @ [ExecaDone (ExecFail ''Command failed with exit code 1''),
                    Enqueue ''/site'' pkg_b] @ replicate 25 Tick) init"
  have d: "fresh t = 2" unfolding t_def by code_simp
  have e: "installs t = []" unfolding t_def by code_simp
  have f: "map fst (settled t) = [0]" unfolding t_def by code_simp
  have g: "held t = [1] \<and> length (waiting t) = 1"
    unfolding t_def by code_simp
  have l: "locked t" unfolding t_def by code_simp
  have x: "executing t = None" unfolding t_def by code_simp
  have "settled (run ''yarn'' es t) = settled t" for es
    using leaked_lock_forever [OF l x, of "''yarn''" es] by simp
  with d e f g have second: "fresh t = 2 \<and> installs t = [] \<and> map fst (settled t) = [0]
       \<and> held t = [1] \<and> length (waiting t) = 1
       \<and> (\<forall>es. settled (run ''yarn'' es t) = settled t)"
    by blast
  define u where "u = run ''yarn''
              ([Enqueue ''/site'' plugin_a] @ replicate 25 Tick
                 @ [ExecaDone (ExecFail ''Command failed with exit code 1''),
                    Enqueue ''/site'' plugin_b] @ replicate 25 Tick) init"
  have d': "fresh u = 2" unfolding u_def by code_simp
  have e': "installs u = []" unfolding u_def by code_simp
  have f': "map fst (settled u) = [0]" unfolding u_def by code_simp
  have g': "held u = [1] \<and> length (waiting u) = 1"
    unfolding u_def by code_simp
  have l': "locked u" unfolding u_def by code_simp
  have x': "executing u = None" unfolding u_def by code_simp
  have "settled (run ''yarn'' es u) = settled u" for es
    using leaked_lock_forever [OF l' x', of "''yarn''" es] by simp
  with d' e' f' g' have third: "fresh u = 2 \<and> installs u = [] \<and> map fst (settled u) = [0]
       \<and> held u = [1] \<and> length (waiting u) = 1
       \<and> (\<forall>es. settled (run ''yarn'' es u) = settled u)"
    by blast
  from first second third show ?thesis unfolding s_def t_def u_def Let_def by blast
qed

subsection \<open>C2: which requests a flush removes\<close>




subsection \<open>C3: the lock on package.json\<close>

text \<open>
  Claim C3: every flush acquires the lock on \<open>package.json\<close> before it invokes the
  installer and releases it on every exit path, so that the lock is free after any flush.
  The code does not do this on failure: the \<open>catch\<close> block returns (line 138) before
  \<open>release()\<close> (line 148). After one request whose installation fails, the request is
  rejected, no call is suspended, and the lock stays held whatever events follow.
\<close>

theorem C3_lock_held_after_failed_install:
  "(let s = run ''yarn''
              ([Enqueue ''/site'' pkg_a] @ replicate 25 Tick
                 @ [ExecaDone (ExecFail ''Command failed with exit code 1'')]) init
    in settled s = [(0, Rejected (reject_payload ''Command failed with exit code 1''))]
       \<and> executing s = None \<and> waiting s = [] \<and> installs s = []
       \<and> (\<forall>es. locked (run ''yarn'' es s)))"
proof -
  define s where "s = run ''yarn''
              ([Enqueue ''/site'' pkg_a] @ replicate 25 Tick
                 @ [ExecaDone (ExecFail ''Command failed with exit code 1'')]) init"
  have a: "settled s = [(0, Rejected (reject_payload ''Command failed with exit code 1''))]"
    unfolding s_def by code_simp
  have b: "executing s = None" unfolding s_def by code_simp
  have c: "waiting s = []" unfolding s_def by code_simp
  have d: "installs s = []" unfolding s_def by code_simp
  have e: "locked s" unfolding s_def by code_simp
  have "locked (run ''yarn'' es s)" for es
    using leaked_lock_forever [OF e b, of "''yarn''" es] by simp
  with a b c d have "settled s = [(0, Rejected (reject_payload ''Command failed with exit code 1''))]
       \<and> executing s = None \<and> waiting s = [] \<and> installs s = []
       \<and> (\<forall>es. locked (run ''yarn'' es s))"
    by blast
  then show ?thesis unfolding s_def Let_def .
qed

subsection \<open>C4: draining the queue after a group\<close>

text \<open>
  Claim C4: after settling a group, on success and on failure alike, a non-empty queue
  makes the scheduler call the flush again at once, so a failure does not stop the
  draining. The code does this on success only: the \<open>return\<close> of the \<open>catch\<close> block
  (line 138) skips the check of line 154. Two requests of different dependency types are
  enqueued; the installation of the first group fails. The second request is still
  queued, no call is suspended or running, no timer is armed, and the installer is never
  invoked again. The same happens with one classification and requests made with a
  string: the second request is enqueued while the installer runs for the first, the
  installation fails, and the second request stays queued with no call running or
  suspended.
\<close>

theorem C4_failure_stops_the_drain:
  "(let s = run ''yarn''
              ([Enqueue ''/site'' pkg_a, Enqueue ''/site'' pkg_c] @ replicate 25 Tick
                 @ [ExecaDone (ExecFail ''Command failed with exit code 1'')]) init
    in installs s = [\<lparr>promise = 1, resource = pkg_c\<rparr>]
       \<and> execa_calls s = [(''yarn'', Some [''add'', ''-W'', ''pkg-a@1.0.0''], ''/site'')]
       \<and> executing s = None \<and> waiting s = [] \<and> timer s = None
       \<and> map fst (settled s) = [0]
       \<and> (\<forall>es. execa_calls (run ''yarn'' es s) = execa_calls s))
   \<and> (let u = run ''yarn''
              ([Enqueue ''/site'' plugin_a] @ replicate 25 Tick
                 @ [Enqueue ''/site'' plugin_b,
                    ExecaDone (ExecFail ''Command failed with exit code 1'')]) init
    in installs u = [\<lparr>promise = 1, resource = plugin_b\<rparr>]
       \<and> execa_calls u = [(''yarn'', Some [''add'', ''-W'', ''undefined@undefined''], ''/site'')]
       \<and> executing u = None \<and> waiting u = []
       \<and> map fst (settled u) = [0]
       \<and> (\<forall>es. execa_calls (run ''yarn'' es u) = execa_calls u))"
proof -
  define s where "s = run ''yarn''
              ([Enqueue ''/site'' pkg_a, Enqueue ''/site'' pkg_c] @ replicate 25 Tick
                 @ [ExecaDone (ExecFail ''Command failed with exit code 1'')]) init"
  have a: "installs s = [\<lparr>promise = 1, resource = pkg_c\<rparr>]"
    unfolding s_def by code_simp
  have b: "execa_calls s = [(''yarn'', Some [''add'', ''-W'', ''pkg-a@1.0.0''], ''/site'')]"
    unfolding s_def by code_simp
  have c: "executing s = None" unfolding s_def by code_simp
  have d: "waiting s = []" unfolding s_def by code_simp
  have e: "timer s = None" unfolding s_def by code_simp
  have f: "map fst (settled s) = [0]" unfolding s_def by code_simp
  have l: "locked s" unfolding s_def by code_simp
  have g: "\<forall>es. execa_calls (run ''yarn'' es s) = execa_calls s"
    using leaked_lock_forever [OF l c, of "''yarn''"] by simp
  have first: "installs s = [\<lparr>promise = 1, resource = pkg_c\<rparr>]
       \<and> execa_calls s = [(''yarn'', Some [''add'', ''-W'', ''pkg-a@1.0.0''], ''/site'')]
       \<and> executing s = None \<and> waiting s = [] \<and> timer s = None
       \<and> map fst (settled s) = [0]
       \<and> (\<forall>es. execa_calls (run ''yarn'' es s) = execa_calls s)"
    using a b c d e f g by blast
  define u where "u = run ''yarn''
              ([Enqueue ''/site'' plugin_a] @ replicate 25 Tick
                 @ [Enqueue ''/site'' plugin_b,
                    ExecaDone (ExecFail ''Command failed with exit code 1'')]) init"
  have a': "installs u = [\<lparr>promise = 1, resource = plugin_b\<rparr>]"
    unfolding u_def by code_simp
  have b': "execa_calls u = [(''yarn'', Some [''add'', ''-W'', ''undefined@undefined''], ''/site'')]"
    unfolding u_def by code_simp
  have c': "executing u = None" unfolding u_def by code_simp
  have d': "waiting u = []" unfolding u_def by code_simp
  have f': "map fst (settled u) = [0]" unfolding u_def by code_simp
  have l': "locked u" unfolding u_def by code_simp
  have g': "\<forall>es. execa_calls (run ''yarn'' es u) = execa_calls u"
    using leaked_lock_forever [OF l' c', of "''yarn''"] by simp
  have second: "installs u = [\<lparr>promise = 1, resource = plugin_b\<rparr>]
       \<and> execa_calls u = [(''yarn'', Some [''add'', ''-W'', ''undefined@undefined''], ''/site'')]
       \<and> executing u = None \<and> waiting u = []
       \<and> map fst (settled u) = [0]
       \<and> (\<forall>es. execa_calls (run ''yarn'' es u) = execa_calls u)"
    using a' b' c' d' f' g' by blast
  from first second show ?thesis unfolding s_def u_def Let_def by blast
qed

subsection \<open>C5: the command line of a group\<close>




subsection \<open>C6: one outcome for the whole group\<close>



subsection \<open>C7: the debounce fires once, after the last call\<close>



subsection \<open>C8: what a failed installation reports\<close>

text \<open>
  Claim C8: when the installer fails for a group, every request of the group is rejected
  with a payload that carries the installer's short message and the text
  \<open>Could not install package\<close>, and the group is not retried. In any state the event
  loop reaches, whether the call in service obtained the lock at once or after waiting,
  the installer's failure rejects exactly the members of its group, each with the JSON
  text of an object whose \<open>message\<close> is the short message, escaped as JSON escapes a
  string, and whose \<open>installationError\<close> is the fixed text; a message that needs no
  escape appears in it as it is. The failure invokes nothing, leaves the queue and the
  suspended calls as they were, and from then on no member of the group is in the queue
  or in a suspended call again, whatever events follow.
\<close>

theorem C8_failure_rejects_group:
  assumes "executing (run pm es init) = Some p"
  shows \<open>let s = run pm es init;
             g = packagesToInstall p;
             s' = step pm (ExecaDone (ExecFail shortMessage)) s
         in settled s' = settled s
              @ map (\<lambda>i. (promise i, Rejected (reject_payload shortMessage))) g
          \<and> reject_payload shortMessage
              = ''{"message":"'' @ concat (map JSON_escape shortMessage)
                  @ ''","installationError":"Could not install package"}''
          \<and> ((\<forall>c \<in> set shortMessage. 32 \<le> (of_char c :: nat) \<and> c \<noteq> CHR 0x22 \<and> c \<noteq> CHR 0x5C)
              \<longrightarrow> reject_payload shortMessage
                  = ''{"message":"'' @ shortMessage
                      @ ''","installationError":"Could not install package"}'')
          \<and> execa_calls s' = execa_calls s
          \<and> installs s' = installs s
          \<and> waiting s' = waiting s
          \<and> executing s' = None
          \<and> (\<forall>i \<in> set g. \<forall>es'. promise i \<notin> set (held (run pm es' s')))\<close>
proof -
  let ?s = "run pm es init"
  let ?g = "packagesToInstall p"
  let ?s' = "step pm (ExecaDone (ExecFail shortMessage)) ?s"
  have l: "locked ?s"
    by (rule reachable_in_service(1) [OF assms])
  have s': "?s' = ?s\<lparr>executing := None,
       settled := settled ?s
         @ map (\<lambda>i. (promise i, Rejected (reject_payload shortMessage))) ?g\<rparr>"
    using l by (simp add: execa_settled_Fail [OF assms] lock_granted_locked)
  have a: "settled ?s' = settled ?s
              @ map (\<lambda>i. (promise i, Rejected (reject_payload shortMessage))) ?g"
    by (simp add: s' del: step.simps)
  have b: \<open>reject_payload shortMessage
              = ''{"message":"'' @ concat (map JSON_escape shortMessage)
                  @ ''","installationError":"Could not install package"}''\<close>
    unfolding reject_payload_def quoted_keys by (simp add: JSON_quote_def)
  have plain: "concat (map JSON_escape m) = m"
    if "\<forall>c \<in> set m. 32 \<le> (of_char c :: nat) \<and> c \<noteq> CHR 0x22 \<and> c \<noteq> CHR 0x5C" for m
    using that
  proof (induction m)
    case Nil
    then show ?case by simp
  next
    case (Cons c m)
    have "32 \<le> (of_char c :: nat)" and "c \<noteq> CHR 0x22" and "c \<noteq> CHR 0x5C"
      using Cons.prems by simp_all
    then have "JSON_escape c = [c]"
      by (auto simp: JSON_escape_def)
    with Cons show ?case by simp
  qed
  have c: \<open>(\<forall>c \<in> set shortMessage. 32 \<le> (of_char c :: nat) \<and> c \<noteq> CHR 0x22 \<and> c \<noteq> CHR 0x5C)
              \<longrightarrow> reject_payload shortMessage
                  = ''{"message":"'' @ shortMessage
                      @ ''","installationError":"Could not install package"}''\<close>
    using plain [of shortMessage] by (simp only: b) simp
  have d: "execa_calls ?s' = execa_calls ?s" and e: "installs ?s' = installs ?s"
    and f: "waiting ?s' = waiting ?s" and g: "executing ?s' = None"
    by (simp_all add: s' del: step.simps)
  have dist: "distinct (held ?s)"
    using reachable_distinct [of pm es] by (simp add: known_def)
  have h: "\<forall>i \<in> set ?g. \<forall>es'. promise i \<notin> set (held (run pm es' ?s'))"
  proof (intro ballI allI)
    fix i es'
    assume i: "i \<in> set ?g"
    have in_held: "promise i \<in> set (held ?s)"
      using i assms by (simp add: held_def)
    have "promise i \<in> set (known ?s)"
      using in_held by (simp add: known_def)
    then have bound: "promise i < fresh ?s'"
      using reachable_bound [of "promise i" pm es] by (simp add: s' del: step.simps)
    have out: "promise i \<notin> set (held ?s')"
      using dist i assms by (auto simp: s' held_def simp del: step.simps)
    show "promise i \<notin> set (held (run pm es' ?s'))"
      by (rule unheld_forever [OF out bound])
  qed
  show ?thesis
    unfolding Let_def
    using a b c d e f g h
    by (intro conjI) assumption+
qed

text \<open>
  A request made with a string is enqueued while the installer runs for another; its
  flush waits for the lock and is in service once the first installation has returned.
  Its installation fails with a message that holds a quote and a line feed.
\<close>

theorem C8_failure_rejects_group_witness:
  \<open>settled (run ''yarn''
      ([Enqueue ''/site'' plugin_a] @ replicate 25 Tick @ [Enqueue ''/site'' plugin_b]
         @ replicate 25 Tick
         @ [ExecaDone ExecOk, ExecaDone (ExecFail [CHR ''E'', CHR 0x22, CHR 0x0A])])
      init)
     = [(0, Resolved),
        (1, Rejected (''{"message":"E'' @ [CHR 0x5C, CHR 0x22, CHR 0x5C, CHR ''n'']
                         @ ''","installationError":"Could not install package"}''))]\<close>
proof -
  define s0 where "s0 = run ''yarn''
      ([Enqueue ''/site'' plugin_a] @ replicate 25 Tick @ [Enqueue ''/site'' plugin_b]
         @ replicate 25 Tick @ [ExecaDone ExecOk]) init"
  have ex: "executing s0
     = Some \<lparr>packagesToInstall = [\<lparr>promise = 1, resource = plugin_b\<rparr>],
             pass_depType = Undefined,
             commands = Some [''add'', ''-W'', ''undefined@undefined''],
             cwd = ''/site''\<rparr>"
    unfolding s0_def by code_simp
  have before: "settled s0 = [(0, Resolved)]"
    unfolding s0_def by code_simp
  have payload: \<open>reject_payload [CHR ''E'', CHR 0x22, CHR 0x0A]
      = ''{"message":"E'' @ [CHR 0x5C, CHR 0x22, CHR 0x5C, CHR ''n'']
          @ ''","installationError":"Could not install package"}''\<close>
    by code_simp
  have unroll: "run ''yarn''
      ([Enqueue ''/site'' plugin_a] @ replicate 25 Tick @ [Enqueue ''/site'' plugin_b]
         @ replicate 25 Tick
         @ [ExecaDone ExecOk, ExecaDone (ExecFail [CHR ''E'', CHR 0x22, CHR 0x0A])])
      init = step ''yarn'' (ExecaDone (ExecFail [CHR ''E'', CHR 0x22, CHR 0x0A])) s0"
    unfolding s0_def
    using run_append [of "''yarn''" "[Enqueue ''/site'' plugin_a] @ replicate 25 Tick
         @ [Enqueue ''/site'' plugin_b] @ replicate 25 Tick @ [ExecaDone ExecOk]"
        "[ExecaDone (ExecFail [CHR ''E'', CHR 0x22, CHR 0x0A])]" init]
    by (simp del: step.simps)
  show ?thesis
    unfolding unroll
    using C8_failure_rejects_group
      [OF ex [unfolded s0_def], of "[CHR ''E'', CHR 0x22, CHR 0x0A]", folded s0_def,
       unfolded Let_def, THEN conjunct1]
    by (simp add: before payload del: step.simps)
qed

subsection \<open>C9: a flush of the empty queue\<close>

text \<open>
  Claim C9: \<open>executeInstalls\<close> reads \<open>installs[0].resource\<close> without a check, so on an
  empty queue it throws, and this can happen: a request enqueued while a flush is
  suspended on the installer re-arms the timer; the recursive call of line 155 then
  drains the queue, and the timer fires on the empty queue afterwards.
\<close>

theorem C9_flush_of_empty_queue_throws:
  "executeInstalls pm root (s\<lparr>installs := []\<rparr>) = Inl TypeError
   \<and> (let s = run ''yarn''
                 ([Enqueue ''/site'' pkg_a] @ replicate 30 Tick
                    @ [Enqueue ''/site'' pkg_c, ExecaDone ExecOk, ExecaDone ExecOk]) init
       in installs s = [] \<and> settled s = [(0, Resolved), (1, Resolved)]
          \<and> timer s = Some (55, ''/site'') \<and> uncaught s = [])
   \<and> uncaught (run ''yarn''
                 ([Enqueue ''/site'' pkg_a] @ replicate 30 Tick
                    @ [Enqueue ''/site'' pkg_c, ExecaDone ExecOk, ExecaDone ExecOk]
                    @ replicate 25 Tick) init) = [TypeError]"
proof (intro conjI)
  show "executeInstalls pm root (s\<lparr>installs := []\<rparr>) = Inl TypeError"
    by (simp add: executeInstalls_def)
next
  show "let s = run ''yarn''
                 ([Enqueue ''/site'' pkg_a] @ replicate 30 Tick
                    @ [Enqueue ''/site'' pkg_c, ExecaDone ExecOk, ExecaDone ExecOk]) init
       in installs s = [] \<and> settled s = [(0, Resolved), (1, Resolved)]
          \<and> timer s = Some (55, ''/site'') \<and> uncaught s = []"
    by code_simp
next
  show "uncaught (run ''yarn''
                 ([Enqueue ''/site'' pkg_a] @ replicate 30 Tick
                    @ [Enqueue ''/site'' pkg_c, ExecaDone ExecOk, ExecaDone ExecOk]
                    @ replicate 25 Tick) init) = [TypeError]"
    by code_simp
qed

subsection \<open>C10: other package managers\<close>



end
